theory Spec2Isabelle
  imports
    Main
    "HOL-Library.Multiset"
    "HOL-Library.Sublist"
    "HOL-Library.Char_ord"
    "HOL-Library.List_Lexorder"
    "HOL-Library.Product_Lexorder"
begin

section \<open>Data model\<close>

text \<open>
  The views of \<^verbatim>\<open>Django/catalog/views.py\<close> and the admin action of
  \<^verbatim>\<open>Django/catalog/admin.py\<close> work on four tables. The file declaring the tables
  (\<^verbatim>\<open>catalog/models.py\<close>) is not part of the sources at hand, so the rows carry the
  fields that the views read and write, with the types the specification gives them.
  Dates are day numbers and timestamps are integers; strings are byte strings.
\<close>

text \<open>Modelled from the spec: the row type \<^verbatim>\<open>Category\<close> (identity and name).\<close>

record category =
  cat_id :: nat
  cat_name :: string

text \<open>
  Modelled from the spec: the row type \<^verbatim>\<open>Book\<close>. The category reference and the
  edition year are optional; \<^verbatim>\<open>copies_total\<close> is a non-negative integer.
\<close>

record book =
  book_id :: nat
  title :: string
  author :: string
  isbn :: string
  publisher :: string
  category_id :: "nat option"
  language :: string
  edition_year :: "nat option"
  copies_total :: nat

text \<open>
  Modelled from the spec: the row type \<^verbatim>\<open>Loan\<close>. \<^verbatim>\<open>returned_at\<close> is nullable;
  a loan is active while it is \<open>None\<close>.
\<close>

record loan =
  loan_id :: nat
  loan_book :: nat
  loan_user :: nat
  borrowed_at :: int
  due_date :: int
  returned_at :: "int option"

text \<open>
  The \<^verbatim>\<open>params\<close> dictionary that \<^verbatim>\<open>book_list\<close> stores with a search: its nine keys
  are fixed by the source, so it is a record of the nine values.
\<close>

record search_params =
  p_disponivel :: bool
  p_categoria :: "string option"
  p_idioma :: string
  p_ano_min :: "string option"
  p_ano_max :: "string option"
  p_ordenar :: string
  p_title :: string
  p_author :: string
  p_isbn :: string

text \<open>Modelled from the spec: the row type \<^verbatim>\<open>SearchQuery\<close>.\<close>

record search_query =
  sq_id :: nat
  sq_user :: "nat option"
  sq_session_key :: string
  sq_q :: string
  sq_params :: search_params
  sq_created_at :: int

record db =
  books :: "book list"
  categories :: "category list"
  loans :: "loan list"
  searches :: "search_query list"

text \<open>
  The request: the HTTP method, the user (\<open>None\<close> is Django's anonymous user), the
  query string as a dictionary, and the key of the session if it has one.
\<close>

record user =
  user_id :: nat
  is_staff :: bool

record request =
  req_method :: string
  req_user :: "user option"
  req_GET :: "string \<rightharpoonup> string"
  req_session_key :: "string option"

text \<open>
  What a view reads from its surroundings: \<^verbatim>\<open>timezone.localdate()\<close>,
  \<^verbatim>\<open>timezone.now()\<close>, the key that \<^verbatim>\<open>request.session.create()\<close> issues, and whether
  \<^verbatim>\<open>import openpyxl\<close> succeeds.
\<close>

record env =
  today :: int
  now :: int
  new_session_key :: string
  openpyxl_installed :: bool

section \<open>Responses\<close>

datatype level = ERROR | SUCCESS | INFO

text \<open>
  The flashed messages of the views, by the place that emits them; the texts themselves
  are Portuguese sentences built from the arguments kept here.
\<close>

datatype message =
  MsgNoCopies
  | MsgBorrowed string int
  | MsgAlreadyReturned
  | MsgReturned nat
  | MsgAdminMarked nat
  | MsgBulkMarked nat

datatype cell = CellStr string | CellNat nat

text \<open>A book of the annotated queryset: the row and its \<^verbatim>\<open>active_loans\<close> count.\<close>

type_synonym row = "book \<times> nat"

datatype response =
  Http404
  | RedirectToLogin
  | ServerError
  | Redirect string "(level \<times> message) list"
  | JsonResponse "string list" "string list" "string list"
  | CsvResponse "cell list list"
  | XlsxResponse "cell list list"
  | Http500
  | Listing "row list" "nat option" nat

section \<open>Queries\<close>

text \<open>
  \<^verbatim>\<open>QuerySet.get\<close> behind \<^verbatim>\<open>get_object_or_404\<close>: no row raises \<^verbatim>\<open>Http404\<close>, one row is
  returned, several rows raise \<^verbatim>\<open>MultipleObjectsReturned\<close>.
\<close>

datatype 'a lookup = NotFound | Found 'a | Multiple

definition get_object_or_404 :: "'a list \<Rightarrow> ('a \<Rightarrow> bool) \<Rightarrow> 'a lookup" where
  "get_object_or_404 xs P =
     (case filter P xs of [] \<Rightarrow> NotFound | [x] \<Rightarrow> Found x | _ # _ # _ \<Rightarrow> Multiple)"

text \<open>The primary key of a created row: one more than every key in the table.\<close>

definition next_id :: "nat list \<Rightarrow> nat" where
  "next_id ids = Suc (fold max ids 0)"

text \<open>
  \<^verbatim>\<open>Loan.objects.filter(book=book, returned_at__isnull=True).count()\<close>, which is also
  the annotation \<^verbatim>\<open>Count("loans", filter=Q(loans__returned_at__isnull=True))\<close>.
\<close>

definition active_loans :: "db \<Rightarrow> nat \<Rightarrow> nat" where
  "active_loans d bid =
     length (filter (\<lambda>l. loan_book l = bid \<and> returned_at l = None) (loans d))"

section \<open>Borrowing\<close>

text \<open>
  \<^verbatim>\<open>borrow_book\<close>, under \<^verbatim>\<open>@login_required\<close>. The created loan gets a fresh key, the
  creation timestamp and a null \<^verbatim>\<open>returned_at\<close>.
\<close>

definition borrow_book :: "env \<Rightarrow> db \<Rightarrow> request \<Rightarrow> nat \<Rightarrow> db \<times> response" where
  "borrow_book e d r bid =
     (case req_user r of
        None \<Rightarrow> (d, RedirectToLogin)
      | Some u \<Rightarrow>
         (case get_object_or_404 (books d) (\<lambda>b. book_id b = bid) of
            NotFound \<Rightarrow> (d, Http404)
          | Multiple \<Rightarrow> (d, ServerError)
          | Found b \<Rightarrow>
              if req_method r \<noteq> ''POST'' then (d, Http404)
              else if copies_total b \<le> active_loans d (book_id b)
              then (d, Redirect ''catalog:book_list'' [(ERROR, MsgNoCopies)])
              else
                let due = today e + 14;
                    l = \<lparr>loan_id = next_id (map loan_id (loans d)),
                         loan_book = book_id b,
                         loan_user = user_id u,
                         borrowed_at = now e,
                         due_date = due,
                         returned_at = None\<rparr>
                in (d\<lparr>loans := loans d @ [l]\<rparr>,
                    Redirect ''catalog:book_list'' [(SUCCESS, MsgBorrowed (title b) due)])))"

section \<open>Returning\<close>

text \<open>
  \<^verbatim>\<open>loan.save(update_fields=["returned_at"])\<close>: the row with the primary key of the
  object in memory takes the object's \<^verbatim>\<open>returned_at\<close>; every other column and every
  other row is left alone.
\<close>

definition save_returned_at :: "db \<Rightarrow> loan \<Rightarrow> db" where
  "save_returned_at d l =
     d\<lparr>loans := map (\<lambda>x. if loan_id x = loan_id l then x\<lparr>returned_at := returned_at l\<rparr> else x)
                     (loans d)\<rparr>"

text \<open>
  Modelled from the spec: the method \<^verbatim>\<open>Loan.mark_returned\<close> of the absent
  \<^verbatim>\<open>catalog/models.py\<close>, called by \<^verbatim>\<open>return_book\<close> and \<^verbatim>\<open>admin_mark_returned\<close>
  on an active loan: it "sets \<^verbatim>\<open>returned_at = now\<close>" and saves the loan.
\<close>

definition mark_returned :: "env \<Rightarrow> db \<Rightarrow> loan \<Rightarrow> db" where
  "mark_returned e d l = save_returned_at d (l\<lparr>returned_at := Some (now e)\<rparr>)"

text \<open>
  \<^verbatim>\<open>return_book\<close>, under \<^verbatim>\<open>@login_required\<close>. The loan is looked up by its key
  \<^emph>\<open>and\<close> the requesting user; \<^verbatim>\<open>if loan.returned_at\<close> tests a nullable timestamp, which is
  true exactly when it is set.
\<close>

definition return_book :: "env \<Rightarrow> db \<Rightarrow> request \<Rightarrow> nat \<Rightarrow> db \<times> response" where
  "return_book e d r lid =
     (case req_user r of
        None \<Rightarrow> (d, RedirectToLogin)
      | Some u \<Rightarrow>
         (case get_object_or_404 (loans d) (\<lambda>l. loan_id l = lid \<and> loan_user l = user_id u) of
            NotFound \<Rightarrow> (d, Http404)
          | Multiple \<Rightarrow> (d, ServerError)
          | Found l \<Rightarrow>
              if req_method r \<noteq> ''POST'' then (d, Http404)
              else if returned_at l \<noteq> None
              then (d, Redirect ''catalog:my_loans'' [(INFO, MsgAlreadyReturned)])
              else (mark_returned e d l,
                    Redirect ''catalog:my_loans'' [(SUCCESS, MsgReturned (loan_book l))])))"

text \<open>\<^verbatim>\<open>_is_staff\<close>, the test of \<^verbatim>\<open>@user_passes_test\<close>.\<close>

definition is_staff_user :: "user option \<Rightarrow> bool" where
  "is_staff_user u = (case u of None \<Rightarrow> False | Some x \<Rightarrow> is_staff x)"

text \<open>\<^verbatim>\<open>admin_mark_returned\<close>: the staff view, which looks the loan up by its key alone.\<close>

definition admin_mark_returned :: "env \<Rightarrow> db \<Rightarrow> request \<Rightarrow> nat \<Rightarrow> db \<times> response" where
  "admin_mark_returned e d r lid =
     (if \<not> is_staff_user (req_user r) then (d, RedirectToLogin)
      else
        (case get_object_or_404 (loans d) (\<lambda>l. loan_id l = lid) of
           NotFound \<Rightarrow> (d, Http404)
         | Multiple \<Rightarrow> (d, ServerError)
         | Found l \<Rightarrow>
             if req_method r \<noteq> ''POST'' then (d, Http404)
             else if returned_at l = None
             then (mark_returned e d l,
                   Redirect ''catalog:admin_overdue_loans'' [(SUCCESS, MsgAdminMarked (loan_book l))])
             else (d, Redirect ''catalog:admin_overdue_loans'' [])))"

text \<open>
  \<^verbatim>\<open>LoanAdmin.marcar_como_devolvido\<close>: the bulk action of the admin panel. The queryset
  it receives is the loans whose keys were ticked; the loop visits those still active.
\<close>

definition marcar_como_devolvido :: "env \<Rightarrow> db \<Rightarrow> nat list \<Rightarrow> db \<times> (level \<times> message)" where
  "marcar_como_devolvido e d selected =
     (let queryset = filter (\<lambda>l. loan_id l \<in> set selected) (loans d);
          active = filter (\<lambda>l. returned_at l = None) queryset;
          d' = fold (\<lambda>l acc. save_returned_at acc (l\<lparr>returned_at := Some (now e)\<rparr>)) active d
      in (d', (INFO, MsgBulkMarked (length active))))"

section \<open>Strings of the query string\<close>

text \<open>
  The characters \<^verbatim>\<open>str.strip()\<close> removes, among the single bytes, and the case folding
  of the letters A to Z; characters outside ASCII are left as they are.
\<close>

definition is_space :: "char \<Rightarrow> bool" where
  "is_space c = (let n = (of_char c :: nat) in (9 \<le> n \<and> n \<le> 13) \<or> (28 \<le> n \<and> n \<le> 32))"

definition strip :: "string \<Rightarrow> string" where
  "strip s = rev (dropWhile is_space (rev (dropWhile is_space s)))"

definition lower_char :: "char \<Rightarrow> char" where
  "lower_char c = (let n = (of_char c :: nat) in if 65 \<le> n \<and> n \<le> 90 then char_of (n + 32) else c)"

text \<open>\<^verbatim>\<open>Lower(...)\<close> of the database.\<close>

definition lower :: "string \<Rightarrow> string" where
  "lower s = map lower_char s"

text \<open>The lookups \<^verbatim>\<open>__icontains\<close> and \<^verbatim>\<open>__iexact\<close>.\<close>

definition icontains :: "string \<Rightarrow> string \<Rightarrow> bool" where
  "icontains field needle = sublist (lower needle) (lower field)"

definition iexact :: "string \<Rightarrow> string \<Rightarrow> bool" where
  "iexact field v = (lower field = lower v)"

definition is_digit :: "char \<Rightarrow> bool" where
  "is_digit c = (let n = (of_char c :: nat) in 48 \<le> n \<and> n \<le> 57)"

text \<open>\<^verbatim>\<open>str.isdigit()\<close>: not empty and digits only.\<close>

definition isdigit :: "string \<Rightarrow> bool" where
  "isdigit s = (s \<noteq> [] \<and> list_all is_digit s)"

text \<open>The value of a string of digits.\<close>

definition nat_of_digits :: "string \<Rightarrow> nat" where
  "nat_of_digits s = fold (\<lambda>c n. 10 * n + (of_char c - 48)) s 0"

text \<open>
  The digits part of what \<^verbatim>\<open>int(str)\<close> accepts: digits, with single underscores
  between two digits. The flag says whether the previous character was a digit.
\<close>

fun int_literal :: "bool \<Rightarrow> string \<Rightarrow> bool" where
  "int_literal prev [] = prev"
| "int_literal prev (c # cs) =
     (if is_digit c then int_literal True cs
      else if c = CHR ''_'' \<and> prev then int_literal False cs
      else False)"

definition digits_value :: "string \<Rightarrow> int option" where
  "digits_value s = (if int_literal False s then Some (int (nat_of_digits (filter is_digit s))) else None)"

text \<open>\<^verbatim>\<open>int(text)\<close>: surrounding white space, an optional sign, the digits; \<open>None\<close> is \<^verbatim>\<open>ValueError\<close>.\<close>

definition py_int :: "string \<Rightarrow> int option" where
  "py_int s =
     (case strip s of
        [] \<Rightarrow> None
      | c # cs \<Rightarrow>
          if c = CHR ''-'' then map_option uminus (digits_value cs)
          else if c = CHR ''+'' then digits_value cs
          else digits_value (c # cs))"

text \<open>\<^verbatim>\<open>request.GET.get(key, default)\<close>.\<close>

definition get_or :: "request \<Rightarrow> string \<Rightarrow> string \<Rightarrow> string" where
  "get_or r k dflt = (case req_GET r k of None \<Rightarrow> dflt | Some v \<Rightarrow> v)"

text \<open>The truth value of an optional string: \<^verbatim>\<open>None\<close> and the empty string are false.\<close>

definition truthy :: "string option \<Rightarrow> bool" where
  "truthy v = (case v of None \<Rightarrow> False | Some s \<Rightarrow> s \<noteq> [])"

section \<open>The catalogue listing\<close>

text \<open>
  The base queryset of \<^verbatim>\<open>book_list\<close>: every book with its count of active loans.
\<close>

definition annotate :: "db \<Rightarrow> row list" where
  "annotate d = map (\<lambda>b. (b, active_loans d (book_id b))) (books d)"

text \<open>
  The free-text term or the three specific fields: with a term \<^verbatim>\<open>q\<close>, one filter on
  title, author or ISBN; without it, one filter for each specific field that was given.
\<close>

definition text_filter :: "string \<Rightarrow> string \<Rightarrow> string \<Rightarrow> string \<Rightarrow> row list \<Rightarrow> row list" where
  "text_filter q title_param author_param isbn_param qs =
     (if q \<noteq> [] then
        filter (\<lambda>(b, n). icontains (title b) q \<or> icontains (author b) q \<or> icontains (isbn b) q) qs
      else
        let qs1 = (if title_param \<noteq> [] then filter (\<lambda>(b, n). icontains (title b) title_param) qs
                   else qs);
            qs2 = (if author_param \<noteq> [] then filter (\<lambda>(b, n). icontains (author b) author_param) qs1
                   else qs1)
        in (if isbn_param \<noteq> [] then filter (\<lambda>(b, n). icontains (isbn b) isbn_param) qs2
            else qs2))"

text \<open>
  The remaining filters, in the order of the source: availability, category, language
  and the two bounds on the edition year. A comparison with a null year is false.
\<close>

definition other_filters :: "request \<Rightarrow> row list \<Rightarrow> row list" where
  "other_filters r qs =
     (let show_only_available = (req_GET r ''disponivel'' = Some ''1'');
          qs1 = (if show_only_available then filter (\<lambda>(b, n). n < copies_total b) qs else qs);
          categoria_id = req_GET r ''categoria'';
          qs2 = (if truthy categoria_id \<and> isdigit (the categoria_id)
                 then filter (\<lambda>(b, n). category_id b = Some (nat_of_digits (the categoria_id))) qs1
                 else qs1);
          idioma = strip (get_or r ''idioma'' []);
          qs3 = (if idioma \<noteq> [] then filter (\<lambda>(b, n). iexact (language b) idioma) qs2 else qs2);
          ano_min = req_GET r ''ano_min'';
          ano_max = req_GET r ''ano_max'';
          qs4 = (if truthy ano_min \<and> isdigit (the ano_min)
                 then filter (\<lambda>(b, n). case edition_year b of None \<Rightarrow> False
                                         | Some y \<Rightarrow> nat_of_digits (the ano_min) \<le> y) qs3
                 else qs3)
      in (if truthy ano_max \<and> isdigit (the ano_max)
          then filter (\<lambda>(b, n). case edition_year b of None \<Rightarrow> False
                                  | Some y \<Rightarrow> y \<le> nat_of_digits (the ano_max)) qs4
          else qs4))"

text \<open>The computed column \<^verbatim>\<open>disponiveis = F("copies_total") - F("active_loans")\<close>.\<close>

definition disponiveis :: "row \<Rightarrow> int" where
  "disponiveis x = int (copies_total (fst x)) - int (snd x)"

text \<open>
  \<^verbatim>\<open>order_by\<close>, always ascending. Titles compare byte by byte. The database is free to
  order rows with equal keys as it likes; here they keep the order they had.
\<close>

definition order_by :: "string \<Rightarrow> row list \<Rightarrow> row list" where
  "order_by ordenar qs =
     (if ordenar = ''author'' then sort_key (\<lambda>x. (lower (author (fst x)), title (fst x))) qs
      else if ordenar = ''disponibilidade'' then sort_key (\<lambda>x. (disponiveis x, title (fst x))) qs
      else sort_key (\<lambda>x. lower (title (fst x))) qs)"

text \<open>The queryset of \<^verbatim>\<open>book_list\<close> after its filters, and after its ordering.\<close>

definition filtered :: "db \<Rightarrow> request \<Rightarrow> row list" where
  "filtered d r =
     other_filters r
       (text_filter (strip (get_or r ''q'' [])) (strip (get_or r ''title'' []))
          (strip (get_or r ''author'' [])) (strip (get_or r ''isbn'' [])) (annotate d))"

definition queryset :: "db \<Rightarrow> request \<Rightarrow> row list" where
  "queryset d r = order_by (get_or r ''ordenar'' ''title'') (filtered d r)"

subsection \<open>Pagination\<close>

text \<open>
  Django's \<^verbatim>\<open>Paginator(qs, 20)\<close> with its defaults (no orphans, an empty first page
  allowed): the number of pages, the slice of a page, and \<^verbatim>\<open>get_page\<close>, which falls
  back to page 1 when the number is not an integer and to the last page when it is out
  of range.
\<close>

definition per_page :: nat where
  "per_page = 20"

definition num_pages :: "'a list \<Rightarrow> nat" where
  "num_pages xs = (max 1 (length xs) + per_page - 1) div per_page"

definition page :: "'a list \<Rightarrow> nat \<Rightarrow> 'a list" where
  "page xs number =
     (let bottom = (number - 1) * per_page;
          top = (if length xs \<le> bottom + per_page then length xs else bottom + per_page)
      in take (top - bottom) (drop bottom xs))"

definition get_page_number :: "'a list \<Rightarrow> string option \<Rightarrow> nat" where
  "get_page_number xs number =
     (case (case number of None \<Rightarrow> None | Some s \<Rightarrow> py_int s) of
        None \<Rightarrow> 1
      | Some n \<Rightarrow> if n < 1 then num_pages xs
                  else if int (num_pages xs) < n then num_pages xs
                  else nat n)"

subsection \<open>Suggestions and exports\<close>

text \<open>
  A line of the CSV or XLSX export after the header line. \<open>None\<close> stands for the
  exception raised when the category of the book does not resolve.
\<close>

definition export_row :: "db \<Rightarrow> row \<Rightarrow> cell list option" where
  "export_row d x =
     (let b = fst x;
          head = [CellStr (title b), CellStr (author b), CellStr (isbn b),
                  CellNat (nat (max (int (copies_total b) - int (snd x)) 0))];
          rest = [CellStr (language b),
                  (case edition_year b of None \<Rightarrow> CellStr []
                   | Some y \<Rightarrow> if y = 0 then CellStr [] else CellNat y)]
      in case category_id b of
           None \<Rightarrow> Some (head @ [CellStr []] @ rest)
         | Some c \<Rightarrow>
            (case filter (\<lambda>k. cat_id k = c) (categories d) of
               [] \<Rightarrow> None
             | k # _ \<Rightarrow> Some (head @ [CellStr (cat_name k)] @ rest)))"

definition export_rows :: "db \<Rightarrow> row list \<Rightarrow> cell list list option" where
  "export_rows d qs = those (map (export_row d) qs)"

subsection \<open>The search history\<close>

text \<open>
  The condition of the history step,
  \<^verbatim>\<open>any([q, title_param, author_param, isbn_param, show_only_available, categoria_id, idioma, ano_min, ano_max])\<close>:
  the four text terms and the language after \<^verbatim>\<open>strip()\<close>, the availability flag, and
  the category and the two years as they were sent.
\<close>

definition any_filter :: "request \<Rightarrow> bool" where
  "any_filter r =
     (strip (get_or r ''q'' []) \<noteq> [] \<or> strip (get_or r ''title'' []) \<noteq> []
      \<or> strip (get_or r ''author'' []) \<noteq> [] \<or> strip (get_or r ''isbn'' []) \<noteq> []
      \<or> req_GET r ''disponivel'' = Some ''1'' \<or> truthy (req_GET r ''categoria'')
      \<or> strip (get_or r ''idioma'' []) \<noteq> [] \<or> truthy (req_GET r ''ano_min'')
      \<or> truthy (req_GET r ''ano_max''))"

text \<open>
  The row that \<^verbatim>\<open>SearchQuery.objects.create\<close> inserts. The session key is the one of
  the request or, when that is missing or empty, the one of the session created for it.
\<close>

definition new_search_query :: "env \<Rightarrow> db \<Rightarrow> request \<Rightarrow> user \<Rightarrow> search_query" where
  "new_search_query e d r u =
     \<lparr>sq_id = next_id (map sq_id (searches d)),
      sq_user = Some (user_id u),
      sq_session_key = (if truthy (req_session_key r) then the (req_session_key r)
                        else new_session_key e),
      sq_q = strip (get_or r ''q'' []),
      sq_params = \<lparr>p_disponivel = (req_GET r ''disponivel'' = Some ''1''),
                    p_categoria = req_GET r ''categoria'',
                    p_idioma = strip (get_or r ''idioma'' []),
                    p_ano_min = req_GET r ''ano_min'',
                    p_ano_max = req_GET r ''ano_max'',
                    p_ordenar = get_or r ''ordenar'' ''title'',
                    p_title = strip (get_or r ''title'' []),
                    p_author = strip (get_or r ''author'' []),
                    p_isbn = strip (get_or r ''isbn'' [])\<rparr>,
      sq_created_at = now e\<rparr>"

subsection \<open>The view\<close>

text \<open>
  \<^verbatim>\<open>book_list\<close>, under \<^verbatim>\<open>@login_required\<close>. The suggestion response and the two
  exports return before the pagination and the history step. The listing carries the
  books shown, the number of the page (\<open>None\<close> in the mode \<^verbatim>\<open>mostrar=todos\<close>) and the
  total count; the other entries of the template context repeat request parameters.
  The insertion into the history table always succeeds here, so the handler that
  swallows its exceptions has nothing to catch.
\<close>

definition book_list :: "env \<Rightarrow> db \<Rightarrow> request \<Rightarrow> db \<times> response" where
  "book_list e d r =
     (case req_user r of
        None \<Rightarrow> (d, RedirectToLogin)
      | Some u \<Rightarrow>
         (let qs = queryset d r in
          if req_GET r ''suggest'' = Some ''1'' \<and> strip (get_or r ''q'' []) \<noteq> [] then
            (d, JsonResponse (take 8 (map (\<lambda>x. title (fst x)) qs))
                             (take 8 (map (\<lambda>x. author (fst x)) qs))
                             (take 8 (map (\<lambda>x. isbn (fst x)) qs)))
          else if req_GET r ''export'' = Some ''csv'' then
            (case export_rows d qs of None \<Rightarrow> (d, ServerError) | Some rows \<Rightarrow> (d, CsvResponse rows))
          else if req_GET r ''export'' = Some ''xlsx'' then
            (if \<not> openpyxl_installed e then (d, Http500)
             else (case export_rows d qs of None \<Rightarrow> (d, ServerError)
                   | Some rows \<Rightarrow> (d, XlsxResponse rows)))
          else
            let mostrar_param = get_or r ''mostrar'' ''20'';
                page_obj = (if mostrar_param = ''todos'' then None
                            else Some (get_page_number qs (req_GET r ''page'')));
                shown = (case page_obj of None \<Rightarrow> qs | Some n \<Rightarrow> page qs n);
                d' = (if any_filter r
                      then d\<lparr>searches := searches d @ [new_search_query e d r u]\<rparr>
                      else d)
            in (d', Listing shown page_obj (length qs))))"

section \<open>Runs of the system\<close>

text \<open>
  The operations that can write to the database, each with the surroundings and the
  request it runs with, and the database after a sequence of them.
\<close>

datatype operation =
  Borrow env request nat
  | Return env request nat
  | AdminMarkReturned env request nat
  | BulkMarkReturned env "nat list"
  | BookList env request

fun apply_operation :: "operation \<Rightarrow> db \<Rightarrow> db" where
  "apply_operation (Borrow e r bid) d = fst (borrow_book e d r bid)"
| "apply_operation (Return e r lid) d = fst (return_book e d r lid)"
| "apply_operation (AdminMarkReturned e r lid) d = fst (admin_mark_returned e d r lid)"
| "apply_operation (BulkMarkReturned e selected) d = fst (marcar_como_devolvido e d selected)"
| "apply_operation (BookList e r) d = fst (book_list e d r)"

definition run :: "operation list \<Rightarrow> db \<Rightarrow> db" where
  "run ops d = fold apply_operation ops d"

section \<open>Example data\<close>

text \<open>
  A small library used to run the views: three books whose availabilities are 2, 0 and
  1 in the order of the table, two active loans and one returned loan; a shelf of 21
  books, one more than a page holds; and a few requests.
\<close>

definition ex_env :: env where
  "ex_env = \<lparr>today = 100, now = 5000, new_session_key = ''s1'', openpyxl_installed = True\<rparr>"

definition ex_later :: env where
  "ex_later = \<lparr>today = 101, now = 6000, new_session_key = ''s2'', openpyxl_installed = True\<rparr>"

definition ex_reader :: user where
  "ex_reader = \<lparr>user_id = 7, is_staff = False\<rparr>"

definition ex_visitor :: user where
  "ex_visitor = \<lparr>user_id = 8, is_staff = False\<rparr>"

definition ex_librarian :: user where
  "ex_librarian = \<lparr>user_id = 9, is_staff = True\<rparr>"

definition ex_book_a :: book where
  "ex_book_a = \<lparr>book_id = 1, title = ''Book A'', author = ''Ann Author'', isbn = ''100'',
     publisher = ''Press'', category_id = None, language = ''en'', edition_year = Some 2001,
     copies_total = 2\<rparr>"

definition ex_1984 :: book where
  "ex_1984 = \<lparr>book_id = 2, title = ''1984'', author = ''George Orwell'', isbn = ''200'',
     publisher = ''Press'', category_id = None, language = ''en'', edition_year = Some 1949,
     copies_total = 1\<rparr>"

definition ex_dune :: book where
  "ex_dune = \<lparr>book_id = 3, title = ''Dune'', author = ''Frank Herbert'', isbn = ''300'',
     publisher = ''Press'', category_id = None, language = ''en'', edition_year = None,
     copies_total = 2\<rparr>"

definition ex_loan_active :: loan where
  "ex_loan_active = \<lparr>loan_id = 1, loan_book = 2, loan_user = 7, borrowed_at = 4000,
     due_date = 110, returned_at = None\<rparr>"

definition ex_loan_dune :: loan where
  "ex_loan_dune = \<lparr>loan_id = 2, loan_book = 3, loan_user = 8, borrowed_at = 4100,
     due_date = 111, returned_at = None\<rparr>"

definition ex_loan_returned :: loan where
  "ex_loan_returned = \<lparr>loan_id = 3, loan_book = 1, loan_user = 7, borrowed_at = 1000,
     due_date = 50, returned_at = Some 2000\<rparr>"

definition ex_catalog :: db where
  "ex_catalog = \<lparr>books = [ex_book_a, ex_1984, ex_dune], categories = [],
     loans = [ex_loan_active, ex_loan_dune, ex_loan_returned], searches = []\<rparr>"

definition ex_post :: "user \<Rightarrow> request" where
  "ex_post u = \<lparr>req_method = ''POST'', req_user = Some u, req_GET = Map.empty,
     req_session_key = None\<rparr>"

definition ex_get :: "(string \<rightharpoonup> string) \<Rightarrow> request" where
  "ex_get g = \<lparr>req_method = ''GET'', req_user = Some ex_reader, req_GET = g,
     req_session_key = None\<rparr>"



definition ex_by_availability :: request where
  "ex_by_availability = ex_get [''ordenar'' \<mapsto> ''disponibilidade'']"








section \<open>Properties of the views\<close>

subsection \<open>Primary keys\<close>

lemma filter_key_unique:
  assumes "distinct (map k xs)" and "x \<in> set xs"
  shows "filter (\<lambda>y. k y = k x) xs = [x]"
  using assms
proof (induction xs)
  case Nil
  then show ?case by simp
next
  case (Cons a xs)
  show ?case
  proof (cases "a = x")
    case True
    have "k x \<notin> k ` set xs" using Cons.prems(1) True by simp
    then have "\<forall>y\<in>set xs. k y \<noteq> k x" by (metis imageI)
    then have "filter (\<lambda>y. k y = k x) xs = []"
      by (simp add: filter_empty_conv)
    then show ?thesis using True by simp
  next
    case False
    then have "x \<in> set xs" using Cons.prems(2) by simp
    moreover have "k a \<noteq> k x" using Cons.prems(1) \<open>x \<in> set xs\<close> by auto
    ultimately show ?thesis using Cons by simp
  qed
qed

lemma get_by_key:
  assumes "distinct (map k xs)" and "x \<in> set xs"
  shows "get_object_or_404 xs (\<lambda>y. k y = k x) = Found x"
  by (simp add: get_object_or_404_def filter_key_unique [OF assms])

lemma filter_key_and:
  assumes "distinct (map k xs)" and "x \<in> set xs" and "P x"
  shows "filter (\<lambda>y. k y = k x \<and> P y) xs = [x]"
proof -
  have "filter (\<lambda>y. k y = k x \<and> P y) xs = filter P (filter (\<lambda>y. k y = k x) xs)"
    by (simp add: conj_commute)
  then show ?thesis using filter_key_unique [OF assms(1,2)] assms(3) by simp
qed

lemma get_Found_member:
  assumes "get_object_or_404 xs P = Found x"
  shows "x \<in> set xs \<and> P x"
proof -
  have "filter P xs = [x]"
    using assms by (simp add: get_object_or_404_def split: list.splits)
  then have "x \<in> set (filter P xs)" by simp
  then show ?thesis by simp
qed

lemma get_none:
  assumes "\<forall>x\<in>set xs. \<not> P x"
  shows "get_object_or_404 xs P = NotFound"
proof -
  have "filter P xs = []" using assms by (simp add: filter_empty_conv)
  then show ?thesis by (simp add: get_object_or_404_def)
qed

lemma fold_max_ge: "(a::nat) \<le> fold max xs a"
  by (induction xs arbitrary: a) (auto intro: order_trans [OF max.cobounded2])

lemma fold_max_upper: "x \<in> set xs \<Longrightarrow> (x::nat) \<le> fold max xs a"
proof (induction xs arbitrary: a)
  case Nil
  then show ?case by simp
next
  case (Cons y ys)
  show ?case
  proof (cases "x = y")
    case True
    have "y \<le> max y a" by simp
    also have "\<dots> \<le> fold max ys (max y a)" by (rule fold_max_ge)
    finally show ?thesis using True by simp
  next
    case False
    then have "x \<in> set ys" using Cons.prems by simp
    then show ?thesis using Cons.IH by simp
  qed
qed

lemma next_id_fresh: "next_id ids \<notin> set ids"
proof
  assume "next_id ids \<in> set ids"
  then have "next_id ids \<le> fold max ids 0" by (rule fold_max_upper)
  then show False by (simp add: next_id_def)
qed

subsection \<open>Borrowing\<close>

lemma borrow_found:
  assumes "distinct (map book_id (books d))" and "b \<in> set (books d)"
  shows "get_object_or_404 (books d) (\<lambda>x. book_id x = book_id b) = Found b"
  using get_by_key [OF assms] .

text \<open>
  Claim C1. For a book of the catalogue whose active loans are at least its
  \<^verbatim>\<open>copies_total\<close>, \<^verbatim>\<open>borrow_book\<close> leaves the database as it was, whatever the request
  is, so no loan is created; and a POST by a logged-in user is answered with the error
  message that no copy is available.
\<close>

theorem C1_borrow_no_copies:
  assumes "distinct (map book_id (books d))"
    and "b \<in> set (books d)"
    and "copies_total b \<le> active_loans d (book_id b)"
  shows "fst (borrow_book e d r (book_id b)) = d \<and>
         (req_user r \<noteq> None \<and> req_method r = ''POST'' \<longrightarrow>
            snd (borrow_book e d r (book_id b)) =
              Redirect ''catalog:book_list'' [(ERROR, MsgNoCopies)])"
  using borrow_found [OF assms(1,2)] assms(3)
  by (auto simp: borrow_book_def split: option.splits)

text \<open>
  Claim C2. For a book of the catalogue with fewer active loans than \<^verbatim>\<open>copies_total\<close>,
  a POST by a logged-in user appends exactly one loan to the table: a loan with a fresh
  key, for that book and that user, created now, due in 14 days and not returned, so the
  count of active loans of the book grows by one. The response reports the loan by the
  title of the book and the due date.
\<close>

theorem C2_borrow_creates_loan:
  assumes "distinct (map book_id (books d))"
    and "b \<in> set (books d)"
    and "active_loans d (book_id b) < copies_total b"
    and "req_user r = Some u"
    and "req_method r = ''POST''"
  shows "\<exists>l. borrow_book e d r (book_id b) =
               (d\<lparr>loans := loans d @ [l]\<rparr>,
                Redirect ''catalog:book_list'' [(SUCCESS, MsgBorrowed (title b) (today e + 14))])
             \<and> loan_id l \<notin> set (map loan_id (loans d))
             \<and> loan_book l = book_id b \<and> loan_user l = user_id u
             \<and> borrowed_at l = now e \<and> due_date l = today e + 14 \<and> returned_at l = None
             \<and> active_loans (d\<lparr>loans := loans d @ [l]\<rparr>) (book_id b)
                 = Suc (active_loans d (book_id b))"
proof -
  define l where "l = \<lparr>loan_id = next_id (map loan_id (loans d)), loan_book = book_id b,
    loan_user = user_id u, borrowed_at = now e, due_date = today e + 14,
    returned_at = None\<rparr>"
  have run: "borrow_book e d r (book_id b) =
      (d\<lparr>loans := loans d @ [l]\<rparr>,
       Redirect ''catalog:book_list'' [(SUCCESS, MsgBorrowed (title b) (today e + 14))])"
    using borrow_found [OF assms(1,2)] assms(3,4,5)
    by (simp add: borrow_book_def Let_def l_def)
  have fresh: "loan_id l \<notin> set (map loan_id (loans d))"
    using next_id_fresh [of "map loan_id (loans d)"] by (simp add: l_def)
  have fields: "loan_book l = book_id b \<and> loan_user l = user_id u \<and> borrowed_at l = now e
      \<and> due_date l = today e + 14 \<and> returned_at l = None"
    by (simp add: l_def)
  have count: "active_loans (d\<lparr>loans := loans d @ [l]\<rparr>) (book_id b)
      = Suc (active_loans d (book_id b))"
    by (simp add: active_loans_def l_def)
  show ?thesis
    using run fresh fields count by (intro exI [of _ l]) simp
qed

subsection \<open>Returning\<close>

lemma key_eq_iff:
  assumes "distinct (map k xs)" and "x \<in> set xs" and "y \<in> set xs"
  shows "k x = k y \<longleftrightarrow> x = y"
  using assms by (meson distinct_map inj_onD)

lemma save_returned_at_ids:
  "map loan_id (loans (save_returned_at d x)) = map loan_id (loans d)"
  by (simp add: save_returned_at_def comp_def)

lemma save_returned_at_other:
  assumes "l \<in> set (loans d)" and "loan_id x \<noteq> loan_id l"
  shows "l \<in> set (loans (save_returned_at d x))"
proof -
  have "(if loan_id l = loan_id x then l\<lparr>returned_at := returned_at x\<rparr> else l) = l"
    using assms(2) by simp
  then show ?thesis
    using assms(1) by (force simp: save_returned_at_def)
qed

lemma mark_returned_loans:
  assumes "distinct (map loan_id (loans d))" and "l \<in> set (loans d)"
  shows "loans (mark_returned e d l) =
         map (\<lambda>x. if x = l then l\<lparr>returned_at := Some (now e)\<rparr> else x) (loans d)"
proof -
  have pointwise: "\<And>x. x \<in> set (loans d) \<Longrightarrow>
      (if loan_id x = loan_id l then x\<lparr>returned_at := Some (now e)\<rparr> else x)
      = (if x = l then l\<lparr>returned_at := Some (now e)\<rparr> else x)"
    using key_eq_iff [OF assms(1) _ assms(2)] by auto
  have rows: "map (\<lambda>x. if loan_id x = loan_id l then x\<lparr>returned_at := Some (now e)\<rparr> else x) (loans d)
      = map (\<lambda>x. if x = l then l\<lparr>returned_at := Some (now e)\<rparr> else x) (loans d)"
    by (rule map_cong [OF refl]) (rule pointwise)
  have "loans (mark_returned e d l) =
      map (\<lambda>x. if loan_id x = loan_id l then x\<lparr>returned_at := Some (now e)\<rparr> else x) (loans d)"
    by (simp add: mark_returned_def save_returned_at_def)
  then show ?thesis by (simp only: rows)
qed

lemma return_found:
  assumes "distinct (map loan_id (loans d))" and "l \<in> set (loans d)"
    and "loan_user l = user_id u"
  shows "get_object_or_404 (loans d) (\<lambda>x. loan_id x = loan_id l \<and> loan_user x = user_id u)
         = Found l"
  using filter_key_and [of loan_id "loans d" l "\<lambda>x. loan_user x = user_id u", OF assms]
  by (simp add: get_object_or_404_def)

lemma return_book_returned:
  assumes "distinct (map loan_id (loans d))" and "l \<in> set (loans d)"
    and "req_user r = Some u" and "loan_user l = user_id u" and "req_method r = ''POST''"
    and "returned_at l \<noteq> None"
  shows "return_book e d r (loan_id l) =
         (d, Redirect ''catalog:my_loans'' [(INFO, MsgAlreadyReturned)])"
  using return_found [OF assms(1,2,4)] assms(3,5,6)
  by (simp add: return_book_def)

lemma return_book_active:
  assumes "distinct (map loan_id (loans d))" and "l \<in> set (loans d)"
    and "req_user r = Some u" and "loan_user l = user_id u" and "req_method r = ''POST''"
    and "returned_at l = None"
  shows "return_book e d r (loan_id l) =
         (mark_returned e d l, Redirect ''catalog:my_loans'' [(SUCCESS, MsgReturned (loan_book l))])"
  using return_found [OF assms(1,2,4)] assms(3,5,6)
  by (simp add: return_book_def)

text \<open>
  Claim C3. For a loan of the requesting user, a POST to \<^verbatim>\<open>return_book\<close> of a loan that
  is already returned changes nothing and answers with the informational message
  \<open>MsgAlreadyReturned\<close>. A first call on an active loan sets \<^verbatim>\<open>returned_at\<close> of that row
  to the current time and touches no other row. In both cases a second call, at any later
  time, answers \<open>MsgAlreadyReturned\<close> and leaves the database of the first call as it is:
  two calls make one transition.
\<close>

theorem C3_return_idempotent:
  assumes "distinct (map loan_id (loans d))" and "l \<in> set (loans d)"
    and "req_user r = Some u" and "loan_user l = user_id u" and "req_method r = ''POST''"
  shows "(returned_at l \<noteq> None \<longrightarrow>
            return_book e d r (loan_id l) =
              (d, Redirect ''catalog:my_loans'' [(INFO, MsgAlreadyReturned)]))
       \<and> (returned_at l = None \<longrightarrow>
            loans (fst (return_book e d r (loan_id l))) =
              map (\<lambda>x. if x = l then l\<lparr>returned_at := Some (now e)\<rparr> else x) (loans d))
       \<and> return_book e' (fst (return_book e d r (loan_id l))) r (loan_id l) =
            (fst (return_book e d r (loan_id l)),
             Redirect ''catalog:my_loans'' [(INFO, MsgAlreadyReturned)])"
proof (cases "returned_at l = None")
  case False
  then have "return_book e d r (loan_id l) =
      (d, Redirect ''catalog:my_loans'' [(INFO, MsgAlreadyReturned)])" for e
    using return_book_returned [OF assms] by simp
  then show ?thesis using False by auto
next
  case True
  let ?d1 = "mark_returned e d l"
  let ?l1 = "l\<lparr>returned_at := Some (now e)\<rparr>"
  have first: "return_book e d r (loan_id l) =
      (?d1, Redirect ''catalog:my_loans'' [(SUCCESS, MsgReturned (loan_book l))])"
    using return_book_active [OF assms True] .
  have loans1: "loans ?d1 = map (\<lambda>x. if x = l then ?l1 else x) (loans d)"
    using mark_returned_loans [OF assms(1,2)] .
  have ids1: "distinct (map loan_id (loans ?d1))"
    using assms(1) by (simp add: mark_returned_def save_returned_at_ids)
  have mem1: "?l1 \<in> set (loans ?d1)"
    using assms(2) by (force simp: loans1)
  have second: "return_book e' ?d1 r (loan_id ?l1) =
      (?d1, Redirect ''catalog:my_loans'' [(INFO, MsgAlreadyReturned)])"
    using return_book_returned [OF ids1 mem1 assms(3) _ assms(5)] assms(4) by simp
  show ?thesis using True first loans1 second by simp
qed

lemma return_book_not_found:
  assumes "req_user r = Some u"
    and "\<forall>x\<in>set (loans d). \<not> (loan_id x = lid \<and> loan_user x = user_id u)"
  shows "return_book e d r lid = (d, Http404)"
  using assms(1) get_none [OF assms(2)] by (simp add: return_book_def)

text \<open>
  Claim C5, as amended. \<^verbatim>\<open>return_book\<close> looks the loan up by key and user together, so
  a user who is not the borrower of an existing loan gets \<open>Http404\<close>, the same response
  as for a key that no loan has, and the database is unchanged. There is no separate
  outcome for a loan that exists and belongs to someone else.
\<close>

theorem C5_non_owner_not_found:
  assumes "distinct (map loan_id (loans d))" and "l \<in> set (loans d)"
    and "req_user r = Some u" and "loan_user l \<noteq> user_id u"
    and "missing \<notin> loan_id ` set (loans d)"
  shows "return_book e d r (loan_id l) = (d, Http404)
       \<and> return_book e d r missing = (d, Http404)"
proof -
  have "\<forall>x\<in>set (loans d). \<not> (loan_id x = loan_id l \<and> loan_user x = user_id u)"
    using key_eq_iff [OF assms(1) _ assms(2)] assms(4) by blast
  then have "return_book e d r (loan_id l) = (d, Http404)"
    using return_book_not_found [OF assms(3)] by blast
  moreover have "return_book e d r missing = (d, Http404)"
    using return_book_not_found [OF assms(3), of d missing] assms(5) by force
  ultimately show ?thesis by simp
qed

subsection \<open>Returned loans stay returned\<close>

lemma mark_returned_keeps:
  assumes "distinct (map loan_id (loans d))" and "l \<in> set (loans d)"
    and "returned_at l \<noteq> None" and "y \<in> set (loans d)" and "returned_at y = None"
  shows "distinct (map loan_id (loans (mark_returned e d y)))
       \<and> l \<in> set (loans (mark_returned e d y))"
proof -
  have "y \<noteq> l" using assms(3,5) by auto
  then have "loan_id y \<noteq> loan_id l"
    using key_eq_iff [OF assms(1,4,2)] by simp
  then have "l \<in> set (loans (save_returned_at d (y\<lparr>returned_at := Some (now e)\<rparr>)))"
    using save_returned_at_other [OF assms(2)] by simp
  then show ?thesis
    using assms(1) by (simp add: mark_returned_def save_returned_at_ids)
qed

lemma borrow_book_loans:
  "loans (fst (borrow_book e d r bid)) = loans d
   \<or> (\<exists>x. loans (fst (borrow_book e d r bid)) = loans d @ [x]
          \<and> loan_id x = next_id (map loan_id (loans d)))"
  by (simp add: borrow_book_def Let_def split: option.splits lookup.splits)

lemma borrow_book_keeps:
  assumes "distinct (map loan_id (loans d))" and "l \<in> set (loans d)"
  shows "distinct (map loan_id (loans (fst (borrow_book e d r bid))))
       \<and> l \<in> set (loans (fst (borrow_book e d r bid)))"
  using borrow_book_loans [of e d r bid] assms next_id_fresh [of "map loan_id (loans d)"]
  by auto

lemma return_book_keeps:
  assumes "distinct (map loan_id (loans d))" and "l \<in> set (loans d)"
    and "returned_at l \<noteq> None"
  shows "distinct (map loan_id (loans (fst (return_book e d r lid))))
       \<and> l \<in> set (loans (fst (return_book e d r lid)))"
proof (cases "req_user r")
  case None
  then show ?thesis using assms by (simp add: return_book_def)
next
  case (Some u)
  show ?thesis
  proof (cases "get_object_or_404 (loans d) (\<lambda>x. loan_id x = lid \<and> loan_user x = user_id u)")
    case NotFound
    then show ?thesis using Some assms by (simp add: return_book_def)
  next
    case Multiple
    then show ?thesis using Some assms by (simp add: return_book_def)
  next
    case (Found y)
    then have "y \<in> set (loans d)" using get_Found_member by fastforce
    then show ?thesis
      using Some Found assms mark_returned_keeps [OF assms, of y e]
      by (simp add: return_book_def)
  qed
qed

lemma admin_mark_returned_keeps:
  assumes "distinct (map loan_id (loans d))" and "l \<in> set (loans d)"
    and "returned_at l \<noteq> None"
  shows "distinct (map loan_id (loans (fst (admin_mark_returned e d r lid))))
       \<and> l \<in> set (loans (fst (admin_mark_returned e d r lid)))"
proof (cases "get_object_or_404 (loans d) (\<lambda>x. loan_id x = lid)")
  case NotFound
  then show ?thesis using assms by (simp add: admin_mark_returned_def)
next
  case Multiple
  then show ?thesis using assms by (simp add: admin_mark_returned_def)
next
  case (Found y)
  then have "y \<in> set (loans d)" using get_Found_member by fastforce
  then show ?thesis
    using Found assms mark_returned_keeps [OF assms, of y e]
    by (simp add: admin_mark_returned_def)
qed

lemma bulk_fold_keeps:
  assumes "l \<in> set (loans d)" and "\<forall>y\<in>set ys. loan_id y \<noteq> loan_id l"
  shows "l \<in> set (loans (fold (\<lambda>y acc. save_returned_at acc (y\<lparr>returned_at := Some t\<rparr>)) ys d))"
  using assms
proof (induction ys arbitrary: d)
  case Nil
  then show ?case by simp
next
  case (Cons y ys)
  have "l \<in> set (loans (save_returned_at d (y\<lparr>returned_at := Some t\<rparr>)))"
    using save_returned_at_other [OF Cons.prems(1)] Cons.prems(2) by simp
  then show ?case using Cons.IH Cons.prems(2) by simp
qed

lemma bulk_fold_ids:
  "map loan_id (loans (fold (\<lambda>y acc. save_returned_at acc (y\<lparr>returned_at := Some t\<rparr>)) ys d))
   = map loan_id (loans d)"
  by (induction ys arbitrary: d) (simp_all add: save_returned_at_ids)

lemma marcar_como_devolvido_keeps:
  assumes "distinct (map loan_id (loans d))" and "l \<in> set (loans d)"
    and "returned_at l \<noteq> None"
  shows "distinct (map loan_id (loans (fst (marcar_como_devolvido e d selected))))
       \<and> l \<in> set (loans (fst (marcar_como_devolvido e d selected)))"
proof -
  let ?active = "filter (\<lambda>y. returned_at y = None) (filter (\<lambda>y. loan_id y \<in> set selected) (loans d))"
  have "\<forall>y\<in>set ?active. loan_id y \<noteq> loan_id l"
  proof
    fix y assume y: "y \<in> set ?active"
    then have "y \<in> set (loans d)" and "returned_at y = None" by simp_all
    then have "y \<noteq> l" using assms(3) by auto
    then show "loan_id y \<noteq> loan_id l"
      using key_eq_iff [OF assms(1) \<open>y \<in> set (loans d)\<close> assms(2)] by simp
  qed
  then have "l \<in> set (loans (fold (\<lambda>y acc. save_returned_at acc (y\<lparr>returned_at := Some (now e)\<rparr>)) ?active d))"
    using bulk_fold_keeps [OF assms(2)] by blast
  then show ?thesis
    using assms(1) by (simp add: marcar_como_devolvido_def Let_def bulk_fold_ids)
qed

lemma book_list_loans: "loans (fst (book_list e d r)) = loans d"
  by (simp add: book_list_def Let_def split: option.splits)

lemma apply_operation_keeps:
  assumes "distinct (map loan_id (loans d))" and "l \<in> set (loans d)"
    and "returned_at l \<noteq> None"
  shows "distinct (map loan_id (loans (apply_operation op d)))
       \<and> l \<in> set (loans (apply_operation op d))"
proof (cases op)
  case (Borrow e r bid)
  then show ?thesis using borrow_book_keeps [OF assms(1,2)] by simp
next
  case (Return e r lid)
  then show ?thesis using return_book_keeps [OF assms] by simp
next
  case (AdminMarkReturned e r lid)
  then show ?thesis using admin_mark_returned_keeps [OF assms] by simp
next
  case (BulkMarkReturned e selected)
  then show ?thesis using marcar_como_devolvido_keeps [OF assms] by simp
next
  case (BookList e r)
  then show ?thesis using assms(1,2) by (simp add: book_list_loans)
qed

text \<open>
  Claim C4. With unique loan keys, a returned loan stays in the table unchanged through
  every sequence of operations (borrowing, the return of the borrower, the return marked
  by staff, the bulk action of the admin panel, the catalogue listing): the row with its
  key keeps its \<^verbatim>\<open>returned_at\<close>.
\<close>

theorem C4_loan_never_reopens:
  assumes "distinct (map loan_id (loans d))" and "l \<in> set (loans d)"
    and "returned_at l \<noteq> None"
  shows "l \<in> set (loans (run ops d))
       \<and> (\<forall>x\<in>set (loans (run ops d)). loan_id x = loan_id l \<longrightarrow> returned_at x = returned_at l)"
proof -
  have keeps: "distinct (map loan_id (loans (fold apply_operation ops d)))
      \<and> l \<in> set (loans (fold apply_operation ops d))"
    using assms(1,2)
  proof (induction ops arbitrary: d)
    case Nil
    then show ?case by simp
  next
    case (Cons op ops)
    have "distinct (map loan_id (loans (apply_operation op d)))
        \<and> l \<in> set (loans (apply_operation op d))"
      using apply_operation_keeps [OF Cons.prems assms(3)] .
    then show ?case using Cons.IH by simp
  qed
  then have "\<forall>x\<in>set (loans (run ops d)). loan_id x = loan_id l \<longrightarrow> x = l"
    using key_eq_iff [of loan_id "loans (run ops d)" _ l] by (simp add: run_def)
  then show ?thesis using keeps by (auto simp: run_def)
qed

subsection \<open>The filters of the listing\<close>

lemma filter_swap: "filter P (filter Q xs) = filter Q (filter P xs)"
  by (induction xs) simp_all




lemma mset_order_by: "mset (order_by k qs) = mset qs"
  by (simp add: order_by_def)










subsection \<open>Ordering by availability\<close>

lemma mset_queryset: "mset (queryset d r) = mset (filtered d r)"
  by (simp add: queryset_def mset_order_by)

lemma lex_key_sorted:
  "sorted (map (\<lambda>x. (f x, g x)) xs) =
   sorted_wrt (\<lambda>x y. f x < f y \<or> (f x = f y \<and> g x \<le> g y)) xs"
proof -
  have "(\<lambda>x y. (f x, g x) \<le> (f y, g y)) = (\<lambda>x y. f x < f y \<or> (f x = f y \<and> g x \<le> g y))"
    by (auto simp: less_eq_prod_def fun_eq_iff)
  then show ?thesis by (simp add: sorted_map)
qed

lemma queryset_by_availability:
  assumes "req_GET r ''ordenar'' = Some ''disponibilidade''"
  shows "queryset d r = sort_key (\<lambda>x. (disponiveis x, title (fst x))) (filtered d r)"
  using assms by (simp add: queryset_def order_by_def get_or_def)

lemma page_take_drop: "page xs n = take per_page (drop ((n - 1) * per_page) xs)"
  by (simp add: page_def Let_def)

lemma listing_shown:
  assumes "snd (book_list e d r) = Listing shown p n"
  shows "shown = queryset d r \<or> (\<exists>k. shown = page (queryset d r) k)"
  using assms
  by (auto simp: book_list_def Let_def split: option.splits if_splits)

text \<open>
  Claim C7. With \<^verbatim>\<open>ordenar=disponibilidade\<close> the queryset holds the filtered rows, each
  once, in ascending order of \<^verbatim>\<open>copies_total - active_loans\<close>, rows of equal availability
  in the order of their titles; the rows shown by a listing, a page or all of them, are in
  that order too. Rows whose availabilities are 2, 0, 1 come out as 0, 1, 2.
\<close>

theorem C7_sort_by_availability:
  assumes "req_GET r ''ordenar'' = Some ''disponibilidade''"
  shows "sorted_wrt (\<lambda>x y. disponiveis x < disponiveis y
                        \<or> (disponiveis x = disponiveis y \<and> title (fst x) \<le> title (fst y)))
           (queryset d r)
       \<and> mset (queryset d r) = mset (filtered d r)
       \<and> (\<forall>shown p n. snd (book_list e d r) = Listing shown p n \<longrightarrow>
            sorted_wrt (\<lambda>x y. disponiveis x < disponiveis y
                          \<or> (disponiveis x = disponiveis y \<and> title (fst x) \<le> title (fst y)))
              shown)
       \<and> (map disponiveis (filtered d r) = [2, 0, 1] \<longrightarrow>
            map disponiveis (queryset d r) = [0, 1, 2])"
proof -
  let ?R = "\<lambda>x y. disponiveis x < disponiveis y
                \<or> (disponiveis x = disponiveis y \<and> title (fst x) \<le> title (fst y))"
  have q: "queryset d r = sort_key (\<lambda>x. (disponiveis x, title (fst x))) (filtered d r)"
    using queryset_by_availability [OF assms] .
  have "sorted (map (\<lambda>x. (disponiveis x, title (fst x))) (queryset d r))"
    by (simp only: q sorted_sort_key)
  then have s: "sorted_wrt ?R (queryset d r)"
    by (simp only: lex_key_sorted)
  have pages: "sorted_wrt ?R shown" if "snd (book_list e d r) = Listing shown p n" for shown p n
  proof -
    from listing_shown [OF that] show ?thesis
    proof
      assume "shown = queryset d r"
      then show ?thesis using s by simp
    next
      assume "\<exists>k. shown = page (queryset d r) k"
      then obtain k where "shown = page (queryset d r) k" ..
      then show ?thesis
        using s by (simp add: page_take_drop sorted_wrt_take sorted_wrt_drop)
    qed
  qed
  have three: "map disponiveis (queryset d r) = [0, 1, 2]"
    if "map disponiveis (filtered d r) = [2, 0, 1]"
  proof -
    from that obtain x y z where xs: "filtered d r = [x, y, z]"
      and v: "disponiveis x = 2" "disponiveis y = 0" "disponiveis z = 1"
      by (auto simp: map_eq_Cons_conv)
    show ?thesis by (simp add: q xs v less_eq_prod_def)
  qed
  show ?thesis using s pages three by (simp add: mset_queryset)
qed

subsection \<open>Pagination\<close>












subsection \<open>The search history\<close>



section \<open>The properties on the example data\<close>

lemmas ex_defs = ex_env_def ex_later_def ex_reader_def ex_visitor_def ex_librarian_def ex_book_a_def ex_1984_def
  ex_dune_def ex_loan_active_def ex_loan_dune_def ex_loan_returned_def ex_catalog_def
  ex_post_def ex_get_def

theorem C1_borrow_no_copies_witness:
  "distinct (map book_id (books ex_catalog)) \<and> ex_1984 \<in> set (books ex_catalog)
   \<and> copies_total ex_1984 \<le> active_loans ex_catalog (book_id ex_1984)
   \<and> req_user (ex_post ex_reader) \<noteq> None \<and> req_method (ex_post ex_reader) = ''POST''
   \<and> fst (borrow_book ex_env ex_catalog (ex_post ex_reader) (book_id ex_1984)) = ex_catalog
   \<and> snd (borrow_book ex_env ex_catalog (ex_post ex_reader) (book_id ex_1984)) =
        Redirect ''catalog:book_list'' [(ERROR, MsgNoCopies)]"
proof -
  have h1: "distinct (map book_id (books ex_catalog))" by (simp add: ex_defs)
  have h2: "ex_1984 \<in> set (books ex_catalog)" by (simp add: ex_defs)
  have h3: "copies_total ex_1984 \<le> active_loans ex_catalog (book_id ex_1984)"
    by (simp add: ex_defs active_loans_def)
  have h4: "req_user (ex_post ex_reader) \<noteq> None \<and> req_method (ex_post ex_reader) = ''POST''"
    by (simp add: ex_post_def)
  show ?thesis
    using h1 h2 h3 h4 C1_borrow_no_copies [OF h1 h2 h3, of ex_env "ex_post ex_reader"]
    by blast
qed

theorem C2_borrow_creates_loan_witness:
  "distinct (map book_id (books ex_catalog)) \<and> ex_book_a \<in> set (books ex_catalog)
   \<and> active_loans ex_catalog (book_id ex_book_a) < copies_total ex_book_a
   \<and> req_user (ex_post ex_reader) = Some ex_reader \<and> req_method (ex_post ex_reader) = ''POST''
   \<and> (\<exists>l. borrow_book ex_env ex_catalog (ex_post ex_reader) (book_id ex_book_a) =
             (ex_catalog\<lparr>loans := loans ex_catalog @ [l]\<rparr>,
              Redirect ''catalog:book_list'' [(SUCCESS, MsgBorrowed ''Book A'' 114)])
          \<and> due_date l = 114 \<and> returned_at l = None \<and> loan_book l = 1)"
proof -
  have h1: "distinct (map book_id (books ex_catalog))" by (simp add: ex_defs)
  have h2: "ex_book_a \<in> set (books ex_catalog)" by (simp add: ex_defs)
  have h3: "active_loans ex_catalog (book_id ex_book_a) < copies_total ex_book_a"
    by (simp add: ex_defs active_loans_def)
  have h4: "req_user (ex_post ex_reader) = Some ex_reader" by (simp add: ex_post_def)
  have h5: "req_method (ex_post ex_reader) = ''POST''" by (simp add: ex_post_def)
  have v: "title ex_book_a = ''Book A'' \<and> today ex_env + 14 = 114 \<and> book_id ex_book_a = 1"
    by (simp add: ex_defs)
  show ?thesis
    using h1 h2 h3 h4 h5 v C2_borrow_creates_loan [OF h1 h2 h3 h4 h5, of ex_env]
    by auto
qed

theorem C3_return_idempotent_witness:
  "distinct (map loan_id (loans ex_catalog))
   \<and> ex_loan_returned \<in> set (loans ex_catalog) \<and> ex_loan_active \<in> set (loans ex_catalog)
   \<and> req_user (ex_post ex_reader) = Some ex_reader \<and> req_method (ex_post ex_reader) = ''POST''
   \<and> loan_user ex_loan_returned = user_id ex_reader \<and> loan_user ex_loan_active = user_id ex_reader
   \<and> returned_at ex_loan_returned \<noteq> None \<and> returned_at ex_loan_active = None
   \<and> return_book ex_env ex_catalog (ex_post ex_reader) (loan_id ex_loan_returned) =
        (ex_catalog, Redirect ''catalog:my_loans'' [(INFO, MsgAlreadyReturned)])
   \<and> loans (fst (return_book ex_env ex_catalog (ex_post ex_reader) (loan_id ex_loan_active))) =
        [ex_loan_active\<lparr>returned_at := Some 5000\<rparr>, ex_loan_dune, ex_loan_returned]
   \<and> return_book ex_later
        (fst (return_book ex_env ex_catalog (ex_post ex_reader) (loan_id ex_loan_active)))
        (ex_post ex_reader) (loan_id ex_loan_active) =
        (fst (return_book ex_env ex_catalog (ex_post ex_reader) (loan_id ex_loan_active)),
         Redirect ''catalog:my_loans'' [(INFO, MsgAlreadyReturned)])"
proof -
  have h1: "distinct (map loan_id (loans ex_catalog))" by (simp add: ex_defs)
  have h2: "ex_loan_returned \<in> set (loans ex_catalog)" by (simp add: ex_defs)
  have h2': "ex_loan_active \<in> set (loans ex_catalog)" by (simp add: ex_defs)
  have h3: "req_user (ex_post ex_reader) = Some ex_reader" by (simp add: ex_post_def)
  have h4: "loan_user ex_loan_returned = user_id ex_reader" by (simp add: ex_defs)
  have h4': "loan_user ex_loan_active = user_id ex_reader" by (simp add: ex_defs)
  have h5: "req_method (ex_post ex_reader) = ''POST''" by (simp add: ex_post_def)
  have r: "returned_at ex_loan_returned \<noteq> None" by (simp add: ex_defs)
  have a: "returned_at ex_loan_active = None" by (simp add: ex_defs)
  have rows: "map (\<lambda>x. if x = ex_loan_active then ex_loan_active\<lparr>returned_at := Some (now ex_env)\<rparr> else x)
      (loans ex_catalog) = [ex_loan_active\<lparr>returned_at := Some 5000\<rparr>, ex_loan_dune, ex_loan_returned]"
    by (simp add: ex_defs)
  show ?thesis
    using h1 h2 h2' h3 h4 h4' h5 r a rows
      C3_return_idempotent [OF h1 h2 h3 h4 h5, of ex_env ex_later]
      C3_return_idempotent [OF h1 h2' h3 h4' h5, of ex_env ex_later]
    by simp
qed

theorem C4_loan_never_reopens_witness:
  "distinct (map loan_id (loans ex_catalog)) \<and> ex_loan_returned \<in> set (loans ex_catalog)
   \<and> returned_at ex_loan_returned \<noteq> None
   \<and> ex_loan_returned \<in> set (loans (run
        [Return ex_later (ex_post ex_reader) 3,
         BulkMarkReturned ex_later [1, 2, 3],
         AdminMarkReturned ex_later (ex_post ex_librarian) 3,
         Borrow ex_later (ex_post ex_reader) 1] ex_catalog))"
proof -
  have h1: "distinct (map loan_id (loans ex_catalog))" by (simp add: ex_defs)
  have h2: "ex_loan_returned \<in> set (loans ex_catalog)" by (simp add: ex_defs)
  have h3: "returned_at ex_loan_returned \<noteq> None" by (simp add: ex_defs)
  show ?thesis
    using h1 h2 h3 C4_loan_never_reopens [OF h1 h2 h3] by blast
qed

theorem C5_counterexample:
  "ex_loan_active \<in> set (loans ex_catalog)
   \<and> loan_user ex_loan_active \<noteq> user_id ex_visitor \<and> \<not> is_staff ex_visitor
   \<and> 99 \<notin> loan_id ` set (loans ex_catalog)
   \<and> snd (return_book ex_env ex_catalog (ex_post ex_visitor) (loan_id ex_loan_active)) = Http404
   \<and> snd (return_book ex_env ex_catalog (ex_post ex_visitor) 99) = Http404"
  by (simp add: ex_defs return_book_def get_object_or_404_def)

theorem C5_non_owner_not_found_witness:
  "distinct (map loan_id (loans ex_catalog)) \<and> ex_loan_active \<in> set (loans ex_catalog)
   \<and> req_user (ex_post ex_visitor) = Some ex_visitor
   \<and> loan_user ex_loan_active \<noteq> user_id ex_visitor
   \<and> 99 \<notin> loan_id ` set (loans ex_catalog)
   \<and> return_book ex_env ex_catalog (ex_post ex_visitor) (loan_id ex_loan_active) = (ex_catalog, Http404)
   \<and> return_book ex_env ex_catalog (ex_post ex_visitor) 99 = (ex_catalog, Http404)"
proof -
  have h1: "distinct (map loan_id (loans ex_catalog))" by (simp add: ex_defs)
  have h2: "ex_loan_active \<in> set (loans ex_catalog)" by (simp add: ex_defs)
  have h3: "req_user (ex_post ex_visitor) = Some ex_visitor" by (simp add: ex_post_def)
  have h4: "loan_user ex_loan_active \<noteq> user_id ex_visitor" by (simp add: ex_defs)
  have h5: "99 \<notin> loan_id ` set (loans ex_catalog)" by (simp add: ex_defs)
  show ?thesis
    using h1 h2 h3 h4 h5 C5_non_owner_not_found [OF h1 h2 h3 h4 h5, of ex_env]
    by blast
qed


theorem C7_sort_by_availability_witness:
  "req_GET ex_by_availability ''ordenar'' = Some ''disponibilidade''
   \<and> map disponiveis (filtered ex_catalog ex_by_availability) = [2, 0, 1]
   \<and> map disponiveis (queryset ex_catalog ex_by_availability) = [0, 1, 2]
   \<and> snd (book_list ex_env ex_catalog ex_by_availability) =
        Listing [(ex_1984, 1), (ex_dune, 1), (ex_book_a, 0)] (Some 1) 3
   \<and> sorted_wrt (\<lambda>x y. disponiveis x < disponiveis y
                    \<or> (disponiveis x = disponiveis y \<and> title (fst x) \<le> title (fst y)))
        [(ex_1984, 1), (ex_dune, 1), (ex_book_a, 0)]"
proof -
  have h: "req_GET ex_by_availability ''ordenar'' = Some ''disponibilidade''"
    by (simp add: ex_by_availability_def ex_get_def)
  have f: "map disponiveis (filtered ex_catalog ex_by_availability) = [2, 0, 1]"
    by code_simp
  have l: "snd (book_list ex_env ex_catalog ex_by_availability) =
      Listing [(ex_1984, 1), (ex_dune, 1), (ex_book_a, 0)] (Some 1) 3"
    by code_simp
  note t = C7_sort_by_availability [OF h, of ex_catalog ex_env]
  have s: "sorted_wrt (\<lambda>x y. disponiveis x < disponiveis y
                    \<or> (disponiveis x = disponiveis y \<and> title (fst x) \<le> title (fst y)))
        [(ex_1984, 1), (ex_dune, 1), (ex_book_a, 0)]"
    using t [THEN conjunct2, THEN conjunct2, THEN conjunct1, rule_format, OF l] .
  have v: "map disponiveis (queryset ex_catalog ex_by_availability) = [0, 1, 2]"
    using t [THEN conjunct2, THEN conjunct2, THEN conjunct2, rule_format, OF f] .
  show ?thesis
    by (intro conjI) (rule h f l s v)+
qed




end
